theory Spec2Isabelle
  imports Complex_Main "HOL-Library.Char_ord"
begin

section \<open>JavaScript values\<close>

text \<open>
  The validators receive whatever the JSON body or the CSV parser hands them. Strings are
  lists of 8-bit characters; every character the address pattern accepts is ASCII.
  \<open>JObject\<close> stands for any object or array (always truthy, never a string).
\<close>

datatype jsval =
    JUndefined
  | JNull
  | JBool bool
  | JNum int
  | JStr string
  | JObject

text \<open>JavaScript truthiness, as used by \<open>!email\<close>, \<open>a || b\<close> and \<open>if (email)\<close>.\<close>

fun truthy :: "jsval \<Rightarrow> bool" where
  "truthy JUndefined = False"
| "truthy JNull = False"
| "truthy (JBool b) = b"
| "truthy (JNum n) = (n \<noteq> 0)"
| "truthy (JStr s) = (s \<noteq> [])"
| "truthy JObject = True"

text \<open>\<open>a || b\<close>: the left operand when it is truthy, the right operand otherwise.\<close>

definition js_or :: "jsval \<Rightarrow> jsval \<Rightarrow> jsval" where
  "js_or a b = (if truthy a then a else b)"

section \<open>Regular expressions\<close>

text \<open>
  The pattern of \<open>validateEmailFormat\<close> uses character classes, concatenation, the
  optional group \<open>(?:...)?\<close>, the bounded repetition \<open>{0,61}\<close>, \<open>{2,}\<close> and \<open>+\<close>.
  A character class is the list of its ranges, a single character being the range from
  itself to itself. \<open>Upto r n\<close> is \<open>r{0,n}\<close> and \<open>Many r\<close> is \<open>r*\<close>.
\<close>

type_synonym cclass = "(char \<times> char) list"

datatype rexp =
    Fail
  | Empty
  | Class cclass
  | Alt rexp rexp
  | Cat rexp rexp
  | Upto rexp nat
  | Many rexp

definition in_class :: "char \<Rightarrow> cclass \<Rightarrow> bool" where
  "in_class c rs = list_ex (\<lambda>(lo, hi). lo \<le> c \<and> c \<le> hi) rs"

text \<open>\<open>(?:r)?\<close>, \<open>r+\<close> and \<open>r{2,}\<close> written with the constructors above.\<close>

definition Opt :: "rexp \<Rightarrow> rexp" where
  "Opt r = Alt Empty r"

definition Some1 :: "rexp \<Rightarrow> rexp" where
  "Some1 r = Cat r (Many r)"

definition AtLeast2 :: "rexp \<Rightarrow> rexp" where
  "AtLeast2 r = Cat r (Cat r (Many r))"

subsection \<open>The language of a pattern\<close>

definition conc :: "string set \<Rightarrow> string set \<Rightarrow> string set" where
  "conc A B = {u @ v | u v. u \<in> A \<and> v \<in> B}"

fun pow :: "string set \<Rightarrow> nat \<Rightarrow> string set" where
  "pow A 0 = {[]}"
| "pow A (Suc n) = conc A (pow A n)"

fun lang :: "rexp \<Rightarrow> string set" where
  "lang Fail = {}"
| "lang Empty = {[]}"
| "lang (Class rs) = {[c] | c. in_class c rs}"
| "lang (Alt r s) = lang r \<union> lang s"
| "lang (Cat r s) = conc (lang r) (lang s)"
| "lang (Upto r n) = (\<Union>k \<in> {..n}. pow (lang r) k)"
| "lang (Many r) = (\<Union>k. pow (lang r) k)"

subsection \<open>Matching by derivatives\<close>

text \<open>
  \<open>RegExp.prototype.test\<close> on a pattern anchored with \<open>^\<close> and \<open>$\<close> (no \<open>m\<close> flag,
  no backreference, no lookaround) decides whether the whole string is in the language of
  the pattern. The matcher below decides the same, one character at a time.
\<close>

fun nullable :: "rexp \<Rightarrow> bool" where
  "nullable Fail = False"
| "nullable Empty = True"
| "nullable (Class rs) = False"
| "nullable (Alt r s) = (nullable r \<or> nullable s)"
| "nullable (Cat r s) = (nullable r \<and> nullable s)"
| "nullable (Upto r n) = True"
| "nullable (Many r) = True"

fun deriv :: "char \<Rightarrow> rexp \<Rightarrow> rexp" where
  "deriv c Fail = Fail"
| "deriv c Empty = Fail"
| "deriv c (Class rs) = (if in_class c rs then Empty else Fail)"
| "deriv c (Alt r s) = Alt (deriv c r) (deriv c s)"
| "deriv c (Cat r s) =
     (if nullable r then Alt (Cat (deriv c r) s) (deriv c s) else Cat (deriv c r) s)"
| "deriv c (Upto r n) = (if n = 0 then Fail else Cat (deriv c r) (Upto r (n - 1)))"
| "deriv c (Many r) = Cat (deriv c r) (Many r)"

fun regex_test :: "rexp \<Rightarrow> string \<Rightarrow> bool" where
  "regex_test r [] = nullable r"
| "regex_test r (c # cs) = regex_test (deriv c r) cs"

section \<open>Syntax validator\<close>

text \<open>
  \<^verbatim>\<open>/^[a-zA-Z0-9](?:[a-zA-Z0-9._%+-]{0,61}[a-zA-Z0-9])?@[a-zA-Z0-9](?:[a-zA-Z0-9-]{0,61}[a-zA-Z0-9])?(?:\.[a-zA-Z]{2,})+$/\<close>
\<close>

definition alnum_cls :: cclass where
  "alnum_cls = [(CHR ''a'', CHR ''z''), (CHR ''A'', CHR ''Z''), (CHR ''0'', CHR ''9'')]"

definition local_cls :: cclass where
  "local_cls = [(CHR ''a'', CHR ''z''), (CHR ''A'', CHR ''Z''), (CHR ''0'', CHR ''9''),
     (CHR ''.'', CHR ''.''), (CHR ''_'', CHR ''_''), (CHR ''%'', CHR ''%''),
     (CHR ''+'', CHR ''+''), (CHR ''-'', CHR ''-'')]"

definition label_cls :: cclass where
  "label_cls = [(CHR ''a'', CHR ''z''), (CHR ''A'', CHR ''Z''), (CHR ''0'', CHR ''9''),
     (CHR ''-'', CHR ''-'')]"

definition alpha_cls :: cclass where
  "alpha_cls = [(CHR ''a'', CHR ''z''), (CHR ''A'', CHR ''Z'')]"

definition local_re :: rexp where
  "local_re = Cat (Class alnum_cls) (Opt (Cat (Upto (Class local_cls) 61) (Class alnum_cls)))"

definition label_re :: rexp where
  "label_re = Cat (Class alnum_cls) (Opt (Cat (Upto (Class label_cls) 61) (Class alnum_cls)))"

definition suffix_re :: rexp where
  "suffix_re = Cat (Class [(CHR ''.'', CHR ''.'')]) (AtLeast2 (Class alpha_cls))"

definition emailRegex :: rexp where
  "emailRegex =
     Cat local_re (Cat (Class [(CHR ''@'', CHR ''@'')]) (Cat label_re (Some1 suffix_re)))"

fun validateEmailFormat :: "jsval \<Rightarrow> bool" where
  "validateEmailFormat (JStr s) = (if s = [] then False else regex_test emailRegex s)"
| "validateEmailFormat _ = False"

section \<open>String helpers\<close>

definition CRLF :: string where
  "CRLF = [CHR 0x0D, CHR 0x0A]"

fun starts_with :: "string \<Rightarrow> string \<Rightarrow> bool" where
  "starts_with s [] = True"
| "starts_with [] (p # ps) = False"
| "starts_with (c # cs) (p # ps) = (c = p \<and> starts_with cs ps)"

text \<open>\<open>String.prototype.includes\<close>.\<close>

fun js_includes :: "string \<Rightarrow> string \<Rightarrow> bool" where
  "js_includes [] sub = (sub = [])"
| "js_includes (c # cs) sub = (starts_with (c # cs) sub \<or> js_includes cs sub)"

text \<open>
  \<open>String.prototype.split\<close> with a non-empty separator; \<open>acc\<close> holds the current piece
  in reverse. The code only splits on \<open>'@'\<close> and on \<open>'\r\n'\<close>.
\<close>

fun js_split :: "string \<Rightarrow> string \<Rightarrow> string \<Rightarrow> string list" where
  "js_split sep acc [] = [rev acc]"
| "js_split sep acc (c # cs) =
     (if sep \<noteq> [] \<and> starts_with (c # cs) sep
      then rev acc # js_split sep [] (drop (length sep - 1) cs)
      else js_split sep (c # acc) cs)"

definition split :: "string \<Rightarrow> string \<Rightarrow> string list" where
  "split s sep = js_split sep [] s"

text \<open>
  \<open>String.prototype.toLowerCase\<close> on 8-bit characters: the upper-case letters are A to Z
  and, in the upper half, \<open>0xC0\<close> to \<open>0xDE\<close> without the multiplication sign \<open>0xD7\<close>.
\<close>

definition lower_char :: "char \<Rightarrow> char" where
  "lower_char c =
     (if (CHR ''A'' \<le> c \<and> c \<le> CHR ''Z'') \<or> (CHR 0xC0 \<le> c \<and> c \<le> CHR 0xDE \<and> c \<noteq> CHR 0xD7)
      then char_of (of_char c + (32::nat)) else c)"

definition toLowerCase :: "string \<Rightarrow> string" where
  "toLowerCase s = map lower_char s"

text \<open>
  \<open>parseInt\<close> without a radix: leading white space is skipped, then an optional sign,
  then an optional \<open>0x\<close> prefix that switches to radix 16, then the longest run of digits.
  \<open>None\<close> is \<open>NaN\<close>.
\<close>

definition is_space :: "char \<Rightarrow> bool" where
  "is_space c = (c \<in> set [CHR 0x09, CHR 0x0A, CHR 0x0B, CHR 0x0C, CHR 0x0D, CHR 0x20, CHR 0xA0])"

definition digit_val :: "char \<Rightarrow> nat option" where
  "digit_val c =
     (if CHR ''0'' \<le> c \<and> c \<le> CHR ''9'' then Some (of_char c - 48)
      else if CHR ''a'' \<le> c \<and> c \<le> CHR ''z'' then Some (of_char c - 87)
      else if CHR ''A'' \<le> c \<and> c \<le> CHR ''Z'' then Some (of_char c - 55)
      else None)"

definition is_digit :: "nat \<Rightarrow> char \<Rightarrow> bool" where
  "is_digit radix c = (case digit_val c of None \<Rightarrow> False | Some d \<Rightarrow> d < radix)"

definition digits_value :: "nat \<Rightarrow> string \<Rightarrow> nat" where
  "digits_value radix ds = foldl (\<lambda>a c. a * radix + the (digit_val c)) 0 ds"

definition parseInt :: "string \<Rightarrow> int option" where
  "parseInt s =
     (let s1 = dropWhile is_space s;
          neg = starts_with s1 ''-'' \<and> s1 \<noteq> [];
          s2 = (if s1 \<noteq> [] \<and> (hd s1 = CHR ''-'' \<or> hd s1 = CHR ''+'') then tl s1 else s1);
          hex = (length s2 \<ge> 2 \<and> (starts_with s2 ''0x'' \<or> starts_with s2 ''0X''));
          radix = (if hex then 16 else 10);
          s3 = (if hex then drop 2 s2 else s2);
          ds = takeWhile (is_digit radix) s3
      in if ds = [] then None
         else Some ((if neg then - 1 else 1) * int (digits_value radix ds)))"

section \<open>Provider registry\<close>

record providerConfig =
  domains :: "string list"
  helo :: string
  timeout :: nat
  provider :: string

text \<open>
  \<open>PROVIDER_CONFIGS\<close>, in the order of \<open>Object.entries\<close>; the key of each entry is kept
  in the field \<open>provider\<close>, as \<open>getProviderConfig\<close> adds it to what it returns.
\<close>

definition PROVIDER_CONFIGS :: "providerConfig list" where
  "PROVIDER_CONFIGS =
     [\<lparr>domains = [''outlook.com'', ''hotmail.com'', ''live.com''],
       helo = ''outlook-com.olc.protection.outlook.com'', timeout = 15000,
       provider = ''outlook.com''\<rparr>,
      \<lparr>domains = [''yahoo.com'', ''ymail.com'', ''yahoo.co.uk''],
       helo = ''yahoo-smtp-in.l.yahoo.com'', timeout = 12000,
       provider = ''yahoo.com''\<rparr>,
      \<lparr>domains = [''icloud.com'', ''me.com'', ''mac.com''],
       helo = ''icloud-com.mail.protection.outlook.com'', timeout = 10000,
       provider = ''icloud.com''\<rparr>]"

definition getProviderConfig :: "string \<Rightarrow> providerConfig option" where
  "getProviderConfig domain = find (\<lambda>config. toLowerCase domain \<in> set (domains config)) PROVIDER_CONFIGS"

section \<open>SMTP probe sessions\<close>

text \<open>
  A probe is a promise around one socket. The socket's life is a list of events, delivered
  to the handlers the code registered, in order. \<open>resolved\<close> is the value of the promise:
  the first call of \<open>resolve\<close> settles it, later calls do nothing. \<open>sent\<close> lists what
  was written to the socket, \<open>connected\<close> and \<open>destroyed\<close> are the socket's own state.
\<close>

datatype sock_event = Connected | Data string | Timeout | SockError | Closed

record session =
  response :: string
  isValid :: bool
  currentCommand :: nat
  resolved :: "bool option"
  sent :: "string list"
  connected :: bool
  destroyed :: bool

definition resolve :: "bool \<Rightarrow> 'a session_scheme \<Rightarrow> 'a session_scheme" where
  "resolve v s = (if resolved s = None then s\<lparr>resolved := Some v\<rparr> else s)"

definition socket_write :: "string \<Rightarrow> 'a session_scheme \<Rightarrow> 'a session_scheme" where
  "socket_write d s = s\<lparr>sent := sent s @ [d]\<rparr>"

definition socket_destroy :: "'a session_scheme \<Rightarrow> 'a session_scheme" where
  "socket_destroy s = s\<lparr>destroyed := True\<rparr>"

definition writable :: "'a session_scheme \<Rightarrow> bool" where
  "writable s = (connected s \<and> \<not> destroyed s)"

text \<open>
  \<open>[, domain] = email.split('@')\<close>. Without an \<open>@\<close> the variable is \<open>undefined\<close>, which a
  template string prints as such; an address that passed the format check has one.
\<close>

definition email_domain :: "string \<Rightarrow> string" where
  "email_domain email = (case split email ''@'' of _ # d # _ \<Rightarrow> d | _ \<Rightarrow> ''undefined'')"

subsection \<open>Generic mode: \<open>verifyMailbox\<close>\<close>

record gsession = session +
  receivedRcptResponse :: bool

definition commands :: "string \<Rightarrow> string list" where
  "commands email =
     [''HELO '' @ email_domain email @ CRLF,
      ''MAIL FROM:<verify@'' @ email_domain email @ ''>'' @ CRLF,
      ''RCPT TO:<'' @ email @ ''>'' @ CRLF,
      ''QUIT'' @ CRLF]"

definition cleanup :: "gsession \<Rightarrow> gsession" where
  "cleanup s = socket_destroy (if writable s then socket_write (''QUIT'' @ CRLF) s else s)"

definition rcpt_verdict :: "int \<Rightarrow> gsession \<Rightarrow> gsession" where
  "rcpt_verdict code s =
     (if currentCommand s = 2 \<and> \<not> receivedRcptResponse s then
        (let s1 = s\<lparr>receivedRcptResponse := True\<rparr> in
         if code = 250 \<or> code = 251 \<or> code = 252 then s1\<lparr>isValid := True\<rparr>
         else if code = 450 \<or> code = 451 \<or> code = 452 then s1\<lparr>isValid := True\<rparr>
         else if code \<ge> 500 \<or> code = 550 \<or> code = 553 then s1\<lparr>isValid := False\<rparr>
         else s1)
      else s)"

text \<open>
  The \<open>for (const line of lines)\<close> loop of the data handler. The second component says
  whether the handler returned from inside the loop. \<open>throws k\<close> says whether writing
  command \<open>k\<close> raises, which the code catches.
\<close>

fun process_lines :: "string \<Rightarrow> (nat \<Rightarrow> bool) \<Rightarrow> string list \<Rightarrow> gsession \<Rightarrow> gsession \<times> bool" where
  "process_lines email throws [] s = (s, False)"
| "process_lines email throws (line # rest) s =
     (case parseInt (take 3 line) of
        None \<Rightarrow> process_lines email throws rest s
      | Some code \<Rightarrow>
          if code = 0 then process_lines email throws rest s
          else
            (let s1 = rcpt_verdict code s in
             if (code \<ge> 200 \<and> code < 300) \<or> code = 451 \<or> code = 452 then
               (if currentCommand s1 < length (commands email) then
                  (if throws (currentCommand s1) then (resolve False (cleanup s1), True)
                   else process_lines email throws rest
                          ((socket_write (commands email ! currentCommand s1) s1)
                             \<lparr>currentCommand := currentCommand s1 + 1\<rparr>))
                else process_lines email throws rest s1)
             else if code \<ge> 500 then (resolve False (cleanup s1), True)
             else process_lines email throws rest s1))"

definition on_data :: "string \<Rightarrow> (nat \<Rightarrow> bool) \<Rightarrow> string \<Rightarrow> gsession \<Rightarrow> gsession" where
  "on_data email throws d s =
     (let s1 = s\<lparr>response := response s @ d\<rparr> in
      if js_includes (response s1) CRLF then
        (let lines = split (response s1) CRLF;
             (s2, returned) = process_lines email throws lines s1
         in if returned then s2 else s2\<lparr>response := last lines\<rparr>)
      else s1)"

definition on_timeout :: "gsession \<Rightarrow> gsession" where
  "on_timeout s = (let s1 = cleanup s in resolve (currentCommand s1 > 1) s1)"

definition on_error :: "gsession \<Rightarrow> gsession" where
  "on_error s = (let s1 = cleanup s in resolve (currentCommand s1 > 0) s1)"

definition on_close :: "gsession \<Rightarrow> gsession" where
  "on_close s = resolve (isValid s \<or> (currentCommand s > 1 \<and> \<not> receivedRcptResponse s)) s"

definition on_connect :: "string \<Rightarrow> gsession \<Rightarrow> gsession" where
  "on_connect email s =
     (socket_write (commands email ! currentCommand s) s)\<lparr>currentCommand := currentCommand s + 1\<rparr>"

text \<open>
  What the socket delivers: it connects once, hands over data only while it is connected
  and not destroyed, and its idle timer is cleared when it is destroyed. A closed socket
  is destroyed.
\<close>

fun deliver :: "string \<Rightarrow> (nat \<Rightarrow> bool) \<Rightarrow> gsession \<Rightarrow> sock_event \<Rightarrow> gsession" where
  "deliver email throws s Connected =
     (if connected s \<or> destroyed s then s else on_connect email (s\<lparr>connected := True\<rparr>))"
| "deliver email throws s (Data d) =
     (if connected s \<and> \<not> destroyed s then on_data email throws d s else s)"
| "deliver email throws s Timeout = (if destroyed s then s else on_timeout s)"
| "deliver email throws s SockError = on_error s"
| "deliver email throws s Closed = socket_destroy (on_close s)"

definition new_session :: gsession where
  "new_session = \<lparr>response = [], isValid = False, currentCommand = 0, resolved = None,
     sent = [], connected = False, destroyed = False, receivedRcptResponse = False\<rparr>"

definition run_session :: "string \<Rightarrow> (nat \<Rightarrow> bool) \<Rightarrow> sock_event list \<Rightarrow> gsession" where
  "run_session email throws evs = foldl (deliver email throws) new_session evs"

text \<open>
  The events of the script are what happens on the socket; when they leave the promise
  pending the socket is idle, and the timer set by \<open>socket.setTimeout(7000)\<close> fires.
\<close>

definition verifyMailbox :: "string \<Rightarrow> (nat \<Rightarrow> bool) \<Rightarrow> sock_event list \<Rightarrow> bool" where
  "verifyMailbox email throws evs =
     (case resolved (run_session email throws (evs @ [Timeout])) of
        Some v \<Rightarrow> v | None \<Rightarrow> False)"


subsection \<open>Provider mode: \<open>verifyProviderMailbox\<close>\<close>

text \<open>
  The promise registers one \<open>'error'\<close> listener when it is created (it resolves
  \<open>false\<close>) and a second one inside the connect callback (it resolves \<open>isValid\<close>).
  An emitter calls its listeners in the order of their registration. The \<open>'data'\<close> and
  \<open>'close'\<close> listeners exist from the connect callback on, which \<open>connected\<close> records.
\<close>

datatype err_listener = ResolveFalse | ResolveIsValid

record psession = session +
  errorListeners :: "err_listener list"

definition provider_commands :: "providerConfig \<Rightarrow> string \<Rightarrow> string list" where
  "provider_commands providerConfig email =
     [''HELO '' @ helo providerConfig @ CRLF,
      ''MAIL FROM:<verify@'' @ helo providerConfig @ ''>'' @ CRLF,
      ''RCPT TO:<'' @ email @ ''>'' @ CRLF,
      ''QUIT'' @ CRLF]"

text \<open>The \<open>switch (providerConfig.provider)\<close> of the response handler.\<close>

definition success_code :: "string \<Rightarrow> int \<Rightarrow> bool" where
  "success_code p code =
     (if p = ''outlook.com'' then code = 250 \<or> code = 251
      else if p = ''yahoo.com'' then code = 250 \<or> code = 235
      else if p = ''icloud.com'' then code = 250 \<or> code = 220
      else code \<ge> 200 \<and> code < 300)"

definition handleResponse :: "providerConfig \<Rightarrow> string \<Rightarrow> string \<Rightarrow> psession \<Rightarrow> psession" where
  "handleResponse providerConfig email d s =
     (let s1 = s\<lparr>response := response s @ d\<rparr> in
      if js_includes (response s1) CRLF then
        (case parseInt (take 3 (response s1)) of
           None \<Rightarrow> s1\<lparr>response := []\<rparr>
         | Some code \<Rightarrow>
             (let s2 = (if success_code (provider providerConfig) code
                        then s1\<lparr>isValid := True\<rparr> else s1);
                  s3 = (if (code \<ge> 200 \<and> code < 300) \<or> code = 451 \<or> code = 452 then
                          (let s4 = s2\<lparr>currentCommand := currentCommand s2 + 1\<rparr> in
                           if currentCommand s4 < length (provider_commands providerConfig email)
                           then socket_write
                                  (provider_commands providerConfig email ! currentCommand s4) s4
                           else s4)
                        else if code \<ge> 500 \<or> code = 450 then resolve False (socket_destroy s2)
                        else s2)
              in s3\<lparr>response := []\<rparr>))
      else s1)"

fun run_listener :: "psession \<Rightarrow> err_listener \<Rightarrow> psession" where
  "run_listener s ResolveFalse = resolve False s"
| "run_listener s ResolveIsValid = resolve (isValid s) s"

text \<open>
  \<open>Timeout\<close> is here the callback of \<open>setTimeout(..., providerConfig.timeout)\<close>, which
  nothing clears.
\<close>

fun pdeliver :: "providerConfig \<Rightarrow> string \<Rightarrow> psession \<Rightarrow> sock_event \<Rightarrow> psession" where
  "pdeliver providerConfig email s Connected =
     (if connected s \<or> destroyed s then s
      else (socket_write (provider_commands providerConfig email ! currentCommand s) s)
             \<lparr>connected := True, errorListeners := errorListeners s @ [ResolveIsValid]\<rparr>)"
| "pdeliver providerConfig email s (Data d) =
     (if connected s \<and> \<not> destroyed s then handleResponse providerConfig email d s else s)"
| "pdeliver providerConfig email s SockError = foldl run_listener s (errorListeners s)"
| "pdeliver providerConfig email s Closed =
     socket_destroy (if connected s then resolve (isValid s) s else s)"
| "pdeliver providerConfig email s Timeout = (let s1 = socket_destroy s in resolve (isValid s1) s1)"

definition new_psession :: psession where
  "new_psession = \<lparr>response = [], isValid = False, currentCommand = 0, resolved = None,
     sent = [], connected = False, destroyed = False, errorListeners = [ResolveFalse]\<rparr>"

definition run_psession :: "providerConfig \<Rightarrow> string \<Rightarrow> sock_event list \<Rightarrow> psession" where
  "run_psession providerConfig email evs = foldl (pdeliver providerConfig email) new_psession evs"

text \<open>The events of the script happen before the timer fires; then it fires.\<close>

definition verifyProviderMailbox :: "providerConfig \<Rightarrow> string \<Rightarrow> sock_event list \<Rightarrow> bool" where
  "verifyProviderMailbox providerConfig email evs =
     (case resolved (run_psession providerConfig email (evs @ [Timeout])) of
        Some v \<Rightarrow> v | None \<Rightarrow> False)"

section \<open>Verdict composer: \<open>validateEmail\<close>\<close>

text \<open>
  The network as one validation sees it: whether the host lookup succeeds, what the MX and
  TXT queries answer (\<open>None\<close> when the resolver rejects), and, for each mail exchanger,
  the events of the socket opened to it and the writes that raise. \<open>netop\<close> lists the
  requests a validation makes.
\<close>

record mxRecord =
  exchange :: string
  priority :: nat

record network =
  dns_lookup :: "string \<Rightarrow> bool"
  resolveMx :: "string \<Rightarrow> mxRecord list option"
  resolveTxt :: "string \<Rightarrow> string list list option"
  socket_events :: "string \<Rightarrow> sock_event list"
  write_throws :: "string \<Rightarrow> nat \<Rightarrow> bool"

datatype netop = DnsLookup string | QueryMx string | QueryTxt string | SmtpConnect string

record CheckSet =
  mx :: bool
  dns :: bool
  spf :: bool
  mailbox :: bool
  smtp :: bool

record VerificationResult =
  email :: jsval
  valid :: bool
  checks :: CheckSet
  reason :: string

definition initial_result :: "jsval \<Rightarrow> VerificationResult" where
  "initial_result e = \<lparr>email = e, valid = False,
     checks = \<lparr>mx = False, dns = False, spf = False, mailbox = False, smtp = False\<rparr>,
     reason = []\<rparr>"

text \<open>
  \<open>for (const mx of mxRecords)\<close>: the exchangers are probed in the order of the list
  until one probe answers \<open>true\<close>. The second component is \<open>mailboxExists\<close> after the loop.
\<close>

fun try_exchangers :: "(string \<Rightarrow> bool) \<Rightarrow> mxRecord list \<Rightarrow> netop list \<times> bool" where
  "try_exchangers probe [] = ([], False)"
| "try_exchangers probe (m # ms) =
     (if probe (exchange m) then ([SmtpConnect (exchange m)], True)
      else (let (ops, found) = try_exchangers probe ms in (SmtpConnect (exchange m) # ops, found)))"

text \<open>\<open>Object.values(result.checks).every(check => check)\<close> and the reason that follows.\<close>

definition all_checks :: "CheckSet \<Rightarrow> bool" where
  "all_checks c = (mx c \<and> dns c \<and> spf c \<and> mailbox c \<and> smtp c)"

definition conclude :: "VerificationResult \<Rightarrow> VerificationResult" where
  "conclude r =
     (let r1 = r\<lparr>valid := all_checks (checks r)\<rparr> in
      if valid r1 then r1\<lparr>reason := ''Email verified successfully''\<rparr>
      else if reason r1 = [] then r1\<lparr>reason := ''Failed to verify email''\<rparr>
      else r1)"

definition smtp_stage ::
  "network \<Rightarrow> string \<Rightarrow> string \<Rightarrow> mxRecord list \<Rightarrow> VerificationResult \<Rightarrow> netop list \<times> VerificationResult" where
  "smtp_stage net addr domain mxRecords r =
     (let r1 = r\<lparr>checks := (checks r)\<lparr>smtp := False\<rparr>\<rparr>;
          providerConfig = getProviderConfig domain;
          (ops, mailboxExists) =
            (case providerConfig of
               Some cfg \<Rightarrow>
                 try_exchangers (\<lambda>x. verifyProviderMailbox cfg addr (socket_events net x)) mxRecords
             | None \<Rightarrow>
                 try_exchangers (\<lambda>x. verifyMailbox addr (write_throws net x) (socket_events net x))
                   mxRecords);
          r2 = (if mailboxExists then r1\<lparr>checks := (checks r1)\<lparr>smtp := True, mailbox := True\<rparr>\<rparr>
                else r1)
      in if \<not> mailboxExists then
           (let r3 = r2\<lparr>reason := ''Mailbox verification failed''\<rparr> in
            if providerConfig = None \<and> dns (checks r3) \<and> mx (checks r3)
            then (ops, r3\<lparr>checks := (checks r3)\<lparr>smtp := True, mailbox := True\<rparr>,
                          reason := ''Email appears valid but could not fully verify''\<rparr>)
            else (ops, r3))
         else (ops, conclude r2))"

definition has_spf :: "string list list \<Rightarrow> bool" where
  "has_spf txtRecords =
     list_ex (\<lambda>records. list_ex (\<lambda>record. js_includes record ''v=spf1'') records) txtRecords"

definition spf_stage ::
  "network \<Rightarrow> string \<Rightarrow> string \<Rightarrow> mxRecord list \<Rightarrow> VerificationResult \<Rightarrow> netop list \<times> VerificationResult" where
  "spf_stage net addr domain mxRecords r =
     (case resolveTxt net domain of
        Some txtRecords \<Rightarrow>
          (let r1 = r\<lparr>checks := (checks r)\<lparr>spf := has_spf txtRecords\<rparr>\<rparr> in
           if \<not> spf (checks r1) \<and> getProviderConfig domain \<noteq> None
           then ([QueryTxt domain], r1\<lparr>reason := ''Domain lacks SPF record''\<rparr>)
           else (let (ops, res) = smtp_stage net addr domain mxRecords r1
                 in (QueryTxt domain # ops, res)))
      | None \<Rightarrow>
          if getProviderConfig domain \<noteq> None
          then ([QueryTxt domain], r\<lparr>reason := ''Failed to verify SPF record''\<rparr>)
          else (let (ops, res) =
                      smtp_stage net addr domain mxRecords (r\<lparr>checks := (checks r)\<lparr>spf := True\<rparr>\<rparr>)
                in (QueryTxt domain # ops, res)))"

definition mx_stage ::
  "network \<Rightarrow> string \<Rightarrow> string \<Rightarrow> VerificationResult \<Rightarrow> netop list \<times> VerificationResult" where
  "mx_stage net addr domain r =
     (case resolveMx net domain of
        Some mxRecords \<Rightarrow>
          (let r1 = r\<lparr>checks := (checks r)\<lparr>mx := (mxRecords \<noteq> [])\<rparr>\<rparr> in
           if \<not> mx (checks r1)
           then ([QueryMx domain], r1\<lparr>reason := ''No mail server found for domain''\<rparr>)
           else (let (ops, res) = spf_stage net addr domain mxRecords r1
                 in (QueryMx domain # ops, res)))
      | None \<Rightarrow> ([QueryMx domain], r\<lparr>reason := ''Failed to verify mail server''\<rparr>))"

text \<open>
  The validation together with the requests it made. The probes never reject and the
  resolver's rejections are caught where they arise, so the handlers
  \<open>'Failed to verify mailbox'\<close> and \<open>'Validation failed'\<close> are never entered.
\<close>

definition validateEmail_run :: "network \<Rightarrow> jsval \<Rightarrow> netop list \<times> VerificationResult" where
  "validateEmail_run net e =
     (if \<not> validateEmailFormat e
      then ([], (initial_result e)\<lparr>reason := ''Invalid email format''\<rparr>)
      else (case e of
              JStr addr \<Rightarrow>
                (let domain = email_domain addr; r = initial_result e in
                 if dns_lookup net domain
                 then (let (ops, res) =
                             mx_stage net addr domain (r\<lparr>checks := (checks r)\<lparr>dns := True\<rparr>\<rparr>)
                       in (DnsLookup domain # ops, res))
                 else ([DnsLookup domain], r\<lparr>reason := ''Domain does not exist''\<rparr>))
            | _ \<Rightarrow> ([], (initial_result e)\<lparr>reason := ''Invalid email format''\<rparr>)))"

definition validateEmail :: "network \<Rightarrow> jsval \<Rightarrow> VerificationResult" where
  "validateEmail net e = snd (validateEmail_run net e)"

definition network_requests :: "network \<Rightarrow> jsval \<Rightarrow> netop list" where
  "network_requests net e = fst (validateEmail_run net e)"

section \<open>Bulk orchestrator\<close>

text \<open>A CSV record is an object: a map from column names to values.\<close>

type_synonym row = "string \<rightharpoonup> jsval"

definition field :: "row \<Rightarrow> string \<Rightarrow> jsval" where
  "field chunk k = (case chunk k of None \<Rightarrow> JUndefined | Some v \<Rightarrow> v)"

definition chunk_email :: "row \<Rightarrow> jsval" where
  "chunk_email chunk = js_or (js_or (field chunk ''email'') (field chunk ''Email'')) (field chunk ''EMAIL'')"

definition processChunk :: "network \<Rightarrow> row \<Rightarrow> row" where
  "processChunk net chunk =
     (if truthy (chunk_email chunk) then
        (let validationResult = validateEmail net (chunk_email chunk) in
         chunk(''validation_result'' \<mapsto> JStr (if valid validationResult then ''Valid'' else ''Invalid''),
               ''validation_reason'' \<mapsto> JStr (reason validationResult),
               ''mx_check'' \<mapsto> JBool (mx (checks validationResult)),
               ''dns_check'' \<mapsto> JBool (dns (checks validationResult)),
               ''spf_check'' \<mapsto> JBool (spf (checks validationResult)),
               ''mailbox_check'' \<mapsto> JBool (mailbox (checks validationResult)),
               ''smtp_check'' \<mapsto> JBool (smtp (checks validationResult))))
      else chunk)"

text \<open>
  The lines written to the response. The percentage is an exact rational here; the code
  computes it in double precision.
\<close>

datatype event = Progress rat "row list" | Complete "row list" | ErrorEvent string

definition chunkSize :: nat where
  "chunkSize = 10"

function bulk_loop :: "network \<Rightarrow> row list \<Rightarrow> nat \<Rightarrow> row list \<Rightarrow> event list" where
  "bulk_loop net records i results =
     (if i < length records then
        (let chunk = take chunkSize (drop i records);
             processedChunk = map (processChunk net) chunk
         in Progress (min (of_nat (i + chunkSize) / of_nat (length records) * 100) 100)
              processedChunk
            # bulk_loop net records (i + chunkSize) (results @ processedChunk))
      else [Complete results])"
  by pat_completeness auto
termination
  by (relation "measure (\<lambda>(net, records, i, results). length records - i)")
     (auto simp: chunkSize_def)

definition bulk :: "network \<Rightarrow> row list \<Rightarrow> event list" where
  "bulk net records = bulk_loop net records 0 []"

section \<open>The address grammar in words\<close>

text \<open>
  What the pattern accepts, said without the pattern: a word of 1 to 63 characters of the
  class \<open>inner\<close> whose first and last characters are of the class \<open>edge\<close>, and a word of
  at least two letters.
\<close>

definition bounded_word :: "cclass \<Rightarrow> cclass \<Rightarrow> string \<Rightarrow> bool" where
  "bounded_word edge inner w \<longleftrightarrow>
     w \<noteq> [] \<and> length w \<le> 63 \<and> in_class (hd w) edge \<and> in_class (last w) edge \<and>
     list_all (\<lambda>c. in_class c inner) w"

definition alpha_word :: "string \<Rightarrow> bool" where
  "alpha_word t \<longleftrightarrow> 2 \<le> length t \<and> list_all (\<lambda>c. in_class c alpha_cls) t"

text \<open>
  The grammar as the specification words it: a local part of 1 to 63 characters among the
  alphanumerics and \<open>. _ % + -\<close> that neither starts nor ends with a dot; then \<open>@\<close>; then
  one or more labels, each followed by a dot, of 1 to 63 alphanumerics or hyphens that
  neither start nor end with a hyphen; then a top-level label of at least two letters.
\<close>

definition spec_local :: "string \<Rightarrow> bool" where
  "spec_local l \<longleftrightarrow>
     1 \<le> length l \<and> length l \<le> 63 \<and> list_all (\<lambda>c. in_class c local_cls) l \<and>
     hd l \<noteq> CHR ''.'' \<and> last l \<noteq> CHR ''.''"

definition spec_label :: "string \<Rightarrow> bool" where
  "spec_label d \<longleftrightarrow>
     1 \<le> length d \<and> length d \<le> 63 \<and> list_all (\<lambda>c. in_class c label_cls) d \<and>
     hd d \<noteq> CHR ''-'' \<and> last d \<noteq> CHR ''-''"

definition spec_address :: "string \<Rightarrow> bool" where
  "spec_address s \<longleftrightarrow>
     (\<exists>l labels tld. s = l @ ''@'' @ concat (map (\<lambda>d. d @ ''.'') labels) @ tld \<and>
        spec_local l \<and> labels \<noteq> [] \<and> list_all spec_label labels \<and> alpha_word tld)"

section \<open>The validation fields of a bulk record\<close>

definition validation_keys :: "string list" where
  "validation_keys = [''validation_result'', ''validation_reason'', ''mx_check'', ''dns_check'',
     ''spf_check'', ''mailbox_check'', ''smtp_check'']"

section \<open>Example networks\<close>

text \<open>
  A domain outside the registry with one mail exchanger. In \<open>net_refused\<close> the TXT query
  fails and the connection to the exchanger is refused. In \<open>net_no_spf\<close> the TXT records
  hold no SPF policy and the exchanger accepts the recipient; \<open>net_txt_fails\<close> differs from
  it only in that the TXT query fails. In \<open>net_silent\<close> the exchanger greets and then says
  nothing more. In \<open>net_down\<close> nothing resolves. In \<open>reset_session\<close> the exchanger answers
  the greeting and \<open>HELO\<close>, then the connection is reset.
\<close>

definition example_mx :: "mxRecord list" where
  "example_mx = [\<lparr>exchange = ''mx.example.org'', priority = 10\<rparr>]"

definition accepting_session :: "sock_event list" where
  "accepting_session =
     [Connected, Data (''220 mx.example.org ESMTP'' @ CRLF), Data (''250 Hello'' @ CRLF),
      Data (''250 OK'' @ CRLF), Data (''250 Accepted'' @ CRLF), Data (''221 Bye'' @ CRLF),
      Closed]"


definition hello_session :: "sock_event list" where
  "hello_session =
     [Connected, Data (''220 mx.example.org ESMTP'' @ CRLF), Data (''250 Hello'' @ CRLF)]"

definition reset_session :: "sock_event list" where
  "reset_session = hello_session @ [SockError]"

definition outlook_config :: providerConfig where
  "outlook_config = \<lparr>domains = [''outlook.com'', ''hotmail.com'', ''live.com''],
     helo = ''outlook-com.olc.protection.outlook.com'', timeout = 15000,
     provider = ''outlook.com''\<rparr>"

definition net_refused :: network where
  "net_refused = \<lparr>dns_lookup = (\<lambda>d. True), resolveMx = (\<lambda>d. Some example_mx),
     resolveTxt = (\<lambda>d. None), socket_events = (\<lambda>x. [SockError]),
     write_throws = (\<lambda>x k. False)\<rparr>"

definition net_no_spf :: network where
  "net_no_spf = \<lparr>dns_lookup = (\<lambda>d. True), resolveMx = (\<lambda>d. Some example_mx),
     resolveTxt = (\<lambda>d. Some [[''google-site-verification=abc'']]),
     socket_events = (\<lambda>x. accepting_session), write_throws = (\<lambda>x k. False)\<rparr>"

definition net_txt_fails :: network where
  "net_txt_fails = \<lparr>dns_lookup = (\<lambda>d. True), resolveMx = (\<lambda>d. Some example_mx),
     resolveTxt = (\<lambda>d. None), socket_events = (\<lambda>x. accepting_session),
     write_throws = (\<lambda>x k. False)\<rparr>"


definition net_down :: network where
  "net_down = \<lparr>dns_lookup = (\<lambda>d. False), resolveMx = (\<lambda>d. None),
     resolveTxt = (\<lambda>d. None), socket_events = (\<lambda>x. []),
     write_throws = (\<lambda>x k. False)\<rparr>"

section \<open>The matcher decides the language\<close>

lemma conc_iff: "w \<in> conc A B \<longleftrightarrow> (\<exists>u v. w = u @ v \<and> u \<in> A \<and> v \<in> B)"
  by (auto simp: conc_def)

lemma nil_in_conc: "[] \<in> conc A B \<longleftrightarrow> [] \<in> A \<and> [] \<in> B"
  by (auto simp: conc_iff)

lemma nil_in_pow0: "[] \<in> pow A 0"
  by simp

lemma nullable_lang: "nullable r \<longleftrightarrow> [] \<in> lang r"
proof (induction r)
  case (Upto r n)
  have "[] \<in> pow (lang r) 0" by simp
  then show ?case by (auto intro!: bexI[where x=0])
next
  case (Many r)
  have "[] \<in> pow (lang r) 0" by simp
  then show ?case by (auto intro!: exI[where x=0])
qed (auto simp: nil_in_conc)

lemma cons_in_conc:
  "c # w \<in> conc A B \<longleftrightarrow>
     (\<exists>u v. w = u @ v \<and> c # u \<in> A \<and> v \<in> B) \<or> ([] \<in> A \<and> c # w \<in> B)"
  by (auto simp: conc_iff Cons_eq_append_conv) 

lemma cons_in_pow:
  "c # w \<in> pow A k \<Longrightarrow> \<exists>j u v. j < k \<and> w = u @ v \<and> c # u \<in> A \<and> v \<in> pow A j"
proof (induction k)
  case 0
  then show ?case by simp
next
  case (Suc k)
  from Suc.prems have "(\<exists>u v. w = u @ v \<and> c # u \<in> A \<and> v \<in> pow A k) \<or> ([] \<in> A \<and> c # w \<in> pow A k)"
    by (simp add: cons_in_conc)
  then show ?case
  proof
    assume "\<exists>u v. w = u @ v \<and> c # u \<in> A \<and> v \<in> pow A k"
    then show ?thesis by blast
  next
    assume "[] \<in> A \<and> c # w \<in> pow A k"
    then obtain j u v where "j < k" "w = u @ v" "c # u \<in> A" "v \<in> pow A j"
      using Suc.IH by blast
    then show ?thesis using less_Suc_eq by blast 
  qed
qed

lemma pow_step: "c # u \<in> A \<Longrightarrow> v \<in> pow A j \<Longrightarrow> c # u @ v \<in> pow A (Suc j)"
  by (auto simp: conc_iff intro: exI[where x="c # u"])

lemma lang_deriv: "w \<in> lang (deriv c r) \<longleftrightarrow> c # w \<in> lang r"
proof (induction r arbitrary: w)
  case (Cat r s)
  have "w \<in> lang (deriv c (Cat r s)) \<longleftrightarrow>
      (\<exists>u v. w = u @ v \<and> c # u \<in> lang r \<and> v \<in> lang s) \<or> ([] \<in> lang r \<and> c # w \<in> lang s)"
    by (auto simp: conc_iff nullable_lang Cat.IH)
  then show ?case by (simp only: lang.simps cons_in_conc)
next
  case (Upto r n)
  show ?case
  proof
    assume "w \<in> lang (deriv c (Upto r n))"
    then obtain u v j where n: "n \<noteq> 0" and w: "w = u @ v" and u: "c # u \<in> lang r"
      and v: "v \<in> pow (lang r) j" and j: "j \<le> n - 1"
      by (auto simp: conc_iff Upto.IH split: if_splits)
    have "c # w \<in> pow (lang r) (Suc j)" using pow_step[OF u v] w by simp
    moreover have "Suc j \<le> n" using n j by simp
    ultimately show "c # w \<in> lang (Upto r n)" by (auto intro: bexI[where x="Suc j"])
  next
    assume "c # w \<in> lang (Upto r n)"
    then obtain k where k: "k \<le> n" and "c # w \<in> pow (lang r) k" by auto
    then obtain j u v where j: "j < k" and w: "w = u @ v" and u: "c # u \<in> lang r"
      and v: "v \<in> pow (lang r) j"
      using cons_in_pow by blast
    have "u \<in> lang (deriv c r)" using u by (simp add: Upto.IH)
    moreover have "v \<in> lang (Upto r (n - 1))" using v j k by auto
    ultimately have "w \<in> conc (lang (deriv c r)) (lang (Upto r (n - 1)))"
      unfolding conc_iff using w by blast
    moreover have "n \<noteq> 0" using j k by simp
    ultimately show "w \<in> lang (deriv c (Upto r n))" by simp
  qed
next
  case (Many r)
  show ?case
  proof
    assume "w \<in> lang (deriv c (Many r))"
    then obtain u v j where w: "w = u @ v" and u: "c # u \<in> lang r"
      and v: "v \<in> pow (lang r) j"
      by (auto simp: conc_iff Many.IH)
    have "c # w \<in> pow (lang r) (Suc j)" using pow_step[OF u v] w by simp
    then show "c # w \<in> lang (Many r)" by (auto intro: exI[where x="Suc j"])
  next
    assume "c # w \<in> lang (Many r)"
    then obtain k where "c # w \<in> pow (lang r) k" by auto
    then obtain j u v where w: "w = u @ v" and u: "c # u \<in> lang r"
      and v: "v \<in> pow (lang r) j"
      using cons_in_pow by blast
    have "u \<in> lang (deriv c r)" using u by (simp add: Many.IH)
    moreover have "v \<in> lang (Many r)" using v by auto
    ultimately have "w \<in> conc (lang (deriv c r)) (lang (Many r))"
      unfolding conc_iff using w by blast
    then show "w \<in> lang (deriv c (Many r))" by simp
  qed
qed (auto)

lemma regex_test_lang: "regex_test r w \<longleftrightarrow> w \<in> lang r"
  by (induction w arbitrary: r) (simp_all add: nullable_lang lang_deriv)

lemma class_conc:
  "w \<in> conc (lang (Class rs)) B \<longleftrightarrow> (\<exists>c v. w = c # v \<and> in_class c rs \<and> v \<in> B)"
proof
  assume "w \<in> conc (lang (Class rs)) B"
  then obtain u v where "w = u @ v" "u \<in> lang (Class rs)" "v \<in> B"
    unfolding conc_iff by blast
  then show "\<exists>c v. w = c # v \<and> in_class c rs \<and> v \<in> B" by auto
next
  assume "\<exists>c v. w = c # v \<and> in_class c rs \<and> v \<in> B"
  then obtain c v where "w = [c] @ v" "[c] \<in> lang (Class rs)" "v \<in> B" by auto
  then show "w \<in> conc (lang (Class rs)) B" unfolding conc_iff by blast
qed

lemma conc_class:
  "w \<in> conc A (lang (Class rs)) \<longleftrightarrow> (\<exists>u c. w = u @ [c] \<and> u \<in> A \<and> in_class c rs)"
proof
  assume "w \<in> conc A (lang (Class rs))"
  then obtain u v where "w = u @ v" "u \<in> A" "v \<in> lang (Class rs)"
    unfolding conc_iff by blast
  then show "\<exists>u c. w = u @ [c] \<and> u \<in> A \<and> in_class c rs" by auto
next
  assume "\<exists>u c. w = u @ [c] \<and> u \<in> A \<and> in_class c rs"
  then obtain u c where "w = u @ [c]" "u \<in> A" "[c] \<in> lang (Class rs)" by auto
  then show "w \<in> conc A (lang (Class rs))" unfolding conc_iff by blast
qed

lemma pow_class:
  "pow (lang (Class rs)) k = {w. length w = k \<and> list_all (\<lambda>c. in_class c rs) w}"
proof (induction k)
  case 0
  then show ?case by auto
next
  case (Suc k)
  show ?case
  proof (rule set_eqI)
    fix w
    show "w \<in> pow (lang (Class rs)) (Suc k) \<longleftrightarrow>
       w \<in> {w. length w = Suc k \<and> list_all (\<lambda>c. in_class c rs) w}"
      unfolding pow.simps class_conc Suc.IH by (cases w) auto
  qed
qed

lemma lang_Upto_Class:
  "lang (Upto (Class rs) n) = {w. length w \<le> n \<and> list_all (\<lambda>c. in_class c rs) w}"
  unfolding lang.simps(6) pow_class by auto

lemma lang_Many_Class:
  "lang (Many (Class rs)) = {w. list_all (\<lambda>c. in_class c rs) w}"
  unfolding lang.simps(7) pow_class by auto

lemma pow_concat:
  "w \<in> pow A k \<longleftrightarrow> (\<exists>ws. length ws = k \<and> w = concat ws \<and> set ws \<subseteq> A)"
proof (induction k arbitrary: w)
  case 0
  then show ?case by auto
next
  case (Suc k)
  show ?case
  proof
    assume "w \<in> pow A (Suc k)"
    then obtain u v where w: "w = u @ v" and u: "u \<in> A" and "v \<in> pow A k"
      by (auto simp: conc_iff)
    then obtain ws where "length ws = k" "v = concat ws" "set ws \<subseteq> A"
      using Suc.IH by blast
    then have "length (u # ws) = Suc k \<and> w = concat (u # ws) \<and> set (u # ws) \<subseteq> A"
      using w u by simp
    then show "\<exists>ws. length ws = Suc k \<and> w = concat ws \<and> set ws \<subseteq> A" by blast
  next
    assume "\<exists>ws. length ws = Suc k \<and> w = concat ws \<and> set ws \<subseteq> A"
    then obtain ws where l: "length ws = Suc k" and w: "w = concat ws" and s: "set ws \<subseteq> A"
      by blast
    then obtain u us where ws: "ws = u # us" by (cases ws) auto
    have "concat us \<in> pow A k" using Suc.IH l s ws by auto
    then show "w \<in> pow A (Suc k)" using w ws s by (auto simp: conc_iff)
  qed
qed

lemma lang_Some1:
  "w \<in> lang (Some1 r) \<longleftrightarrow> (\<exists>ws. ws \<noteq> [] \<and> w = concat ws \<and> set ws \<subseteq> lang r)"
proof
  assume "w \<in> lang (Some1 r)"
  then obtain u v k where w: "w = u @ v" and u: "u \<in> lang r" and "v \<in> pow (lang r) k"
    by (auto simp: Some1_def conc_iff)
  then obtain ws where "v = concat ws" "set ws \<subseteq> lang r"
    using pow_concat by blast
  then have "u # ws \<noteq> [] \<and> w = concat (u # ws) \<and> set (u # ws) \<subseteq> lang r"
    using w u by simp
  then show "\<exists>ws. ws \<noteq> [] \<and> w = concat ws \<and> set ws \<subseteq> lang r" by blast
next
  assume "\<exists>ws. ws \<noteq> [] \<and> w = concat ws \<and> set ws \<subseteq> lang r"
  then obtain u us where w: "w = concat (u # us)" and s: "set (u # us) \<subseteq> lang r"
    by (metis list.exhaust)
  have "concat us \<in> pow (lang r) (length us)" using s pow_concat by auto
  then have "concat us \<in> lang (Many r)" by auto
  then show "w \<in> lang (Some1 r)" using w s by (auto simp: Some1_def conc_iff)
qed

lemma lang_Opt: "w \<in> lang (Opt r) \<longleftrightarrow> w = [] \<or> w \<in> lang r"
  by (simp add: Opt_def)

lemma lang_edge:
  assumes sub: "\<And>c. in_class c edge \<Longrightarrow> in_class c inner"
  shows "w \<in> lang (Cat (Class edge) (Opt (Cat (Upto (Class inner) 61) (Class edge)))) \<longleftrightarrow>
     bounded_word edge inner w"
proof -
  have "w \<in> lang (Cat (Class edge) (Opt (Cat (Upto (Class inner) 61) (Class edge)))) \<longleftrightarrow>
     (\<exists>c v. w = c # v \<and> in_class c edge \<and>
        (v = [] \<or> (\<exists>m d. v = m @ [d] \<and> m \<in> lang (Upto (Class inner) 61) \<and> in_class d edge)))"
    unfolding lang.simps(5) class_conc lang_Opt conc_class ..
  also have "\<dots> \<longleftrightarrow> bounded_word edge inner w"
  proof
    assume "\<exists>c v. w = c # v \<and> in_class c edge \<and>
        (v = [] \<or> (\<exists>m d. v = m @ [d] \<and> m \<in> lang (Upto (Class inner) 61) \<and> in_class d edge))"
    then obtain c v where w: "w = c # v" and c: "in_class c edge"
      and v: "v = [] \<or> (\<exists>m d. v = m @ [d] \<and> m \<in> lang (Upto (Class inner) 61) \<and> in_class d edge)"
      by blast
    from v show "bounded_word edge inner w"
    proof
      assume "v = []"
      then show ?thesis using w c sub by (simp add: bounded_word_def)
    next
      assume "\<exists>m d. v = m @ [d] \<and> m \<in> lang (Upto (Class inner) 61) \<and> in_class d edge"
      then obtain m d where "v = m @ [d]" "length m \<le> 61"
        "list_all (\<lambda>c. in_class c inner) m" "in_class d edge"
        unfolding lang_Upto_Class by blast
      then show ?thesis using w c sub by (simp add: bounded_word_def)
    qed
  next
    assume b: "bounded_word edge inner w"
    then obtain c v where w: "w = c # v" by (cases w) (auto simp: bounded_word_def)
    have c: "in_class c edge" using b w by (simp add: bounded_word_def)
    show "\<exists>c v. w = c # v \<and> in_class c edge \<and>
        (v = [] \<or> (\<exists>m d. v = m @ [d] \<and> m \<in> lang (Upto (Class inner) 61) \<and> in_class d edge))"
    proof (cases "v = []")
      case True
      then show ?thesis using w c by blast
    next
      case False
      then obtain m d where v: "v = m @ [d]" by (metis rev_exhaust)
      have "m \<in> lang (Upto (Class inner) 61)"
        using b w v unfolding lang_Upto_Class by (simp add: bounded_word_def)
      moreover have "in_class d edge" using b w v by (simp add: bounded_word_def)
      ultimately show ?thesis using w c v by blast
    qed
  qed
  finally show ?thesis .
qed

lemma alnum_local: "in_class c alnum_cls \<Longrightarrow> in_class c local_cls"
  by (auto simp: in_class_def alnum_cls_def local_cls_def)

lemma alnum_label: "in_class c alnum_cls \<Longrightarrow> in_class c label_cls"
  by (auto simp: in_class_def alnum_cls_def label_cls_def)

lemma lang_local_re: "w \<in> lang local_re \<longleftrightarrow> bounded_word alnum_cls local_cls w"
  unfolding local_re_def by (rule lang_edge) (rule alnum_local)

lemma lang_label_re: "w \<in> lang label_re \<longleftrightarrow> bounded_word alnum_cls label_cls w"
  unfolding label_re_def by (rule lang_edge) (rule alnum_label)

lemma lang_AtLeast2_Class:
  "w \<in> lang (AtLeast2 (Class rs)) \<longleftrightarrow> 2 \<le> length w \<and> list_all (\<lambda>c. in_class c rs) w"
proof -
  have "w \<in> lang (AtLeast2 (Class rs)) \<longleftrightarrow>
     (\<exists>a u. w = a # u \<and> in_class a rs \<and>
        (\<exists>b v. u = b # v \<and> in_class b rs \<and> list_all (\<lambda>c. in_class c rs) v))"
    unfolding AtLeast2_def lang.simps(5) class_conc lang_Many_Class by simp
  also have "\<dots> \<longleftrightarrow> 2 \<le> length w \<and> list_all (\<lambda>c. in_class c rs) w"
    by (cases w; cases "tl w") auto
  finally show ?thesis .
qed

lemma dot_class: "in_class c [(CHR ''.'', CHR ''.'')] \<longleftrightarrow> c = CHR ''.''"
  by (auto simp: in_class_def)

lemma at_class: "in_class c [(CHR ''@'', CHR ''@'')] \<longleftrightarrow> c = CHR ''@''"
  by (auto simp: in_class_def)

lemma lang_suffix_re: "w \<in> lang suffix_re \<longleftrightarrow> (\<exists>t. w = CHR ''.'' # t \<and> alpha_word t)"
  unfolding suffix_re_def lang.simps(5) class_conc lang_AtLeast2_Class alpha_word_def dot_class
  by blast

lemma lang_suffixes:
  "w \<in> lang (Some1 suffix_re) \<longleftrightarrow>
     (\<exists>ts. ts \<noteq> [] \<and> w = concat (map (\<lambda>t. CHR ''.'' # t) ts) \<and> list_all alpha_word ts)"
proof
  assume "w \<in> lang (Some1 suffix_re)"
  then obtain ws where ws: "ws \<noteq> []" "w = concat ws" "set ws \<subseteq> lang suffix_re"
    using lang_Some1 by blast
  have "\<forall>x\<in>set ws. \<exists>t. x = CHR ''.'' # t \<and> alpha_word t"
    using ws(3) lang_suffix_re by blast
  then have "\<forall>x\<in>set ws. x = CHR ''.'' # tl x \<and> alpha_word (tl x)"
    by fastforce
  then have "map (\<lambda>t. CHR ''.'' # t) (map tl ws) = ws \<and> list_all alpha_word (map tl ws)"
    by (induction ws) auto
  then have "map tl ws \<noteq> [] \<and> w = concat (map (\<lambda>t. CHR ''.'' # t) (map tl ws)) \<and>
      list_all alpha_word (map tl ws)"
    using ws by simp
  then show "\<exists>ts. ts \<noteq> [] \<and> w = concat (map (\<lambda>t. CHR ''.'' # t) ts) \<and> list_all alpha_word ts"
    by blast
next
  assume "\<exists>ts. ts \<noteq> [] \<and> w = concat (map (\<lambda>t. CHR ''.'' # t) ts) \<and> list_all alpha_word ts"
  then obtain ts where ts: "ts \<noteq> []" "w = concat (map (\<lambda>t. CHR ''.'' # t) ts)"
    "list_all alpha_word ts" by blast
  have "set (map (\<lambda>t. CHR ''.'' # t) ts) \<subseteq> lang suffix_re"
    using ts(3) lang_suffix_re by (auto simp: list_all_iff)
  moreover have "map (\<lambda>t. CHR ''.'' # t) ts \<noteq> []" using ts(1) by simp
  ultimately show "w \<in> lang (Some1 suffix_re)"
    using ts(2) lang_Some1[of w suffix_re] by blast
qed

lemma lang_at: "u \<in> lang (Class [(CHR ''@'', CHR ''@'')]) \<longleftrightarrow> u = ''@''"
  by (auto simp: in_class_def)

lemma lang_emailRegex:
  "w \<in> lang emailRegex \<longleftrightarrow>
     (\<exists>l d ts. w = l @ ''@'' @ d @ concat (map (\<lambda>t. CHR ''.'' # t) ts) \<and>
        bounded_word alnum_cls local_cls l \<and> bounded_word alnum_cls label_cls d \<and>
        ts \<noteq> [] \<and> list_all alpha_word ts)"
proof -
  have "w \<in> lang emailRegex \<longleftrightarrow>
     (\<exists>l v. w = l @ v \<and> bounded_word alnum_cls local_cls l \<and>
        (\<exists>a x. v = a @ x \<and> a = ''@'' \<and>
           (\<exists>d y. x = d @ y \<and> bounded_word alnum_cls label_cls d \<and>
              (\<exists>ts. ts \<noteq> [] \<and> y = concat (map (\<lambda>t. CHR ''.'' # t) ts) \<and> list_all alpha_word ts))))"
    unfolding emailRegex_def lang.simps(5) conc_iff lang_at lang_local_re lang_label_re
      lang_suffixes ..
  also have "\<dots> \<longleftrightarrow> (\<exists>l d ts. w = l @ ''@'' @ d @ concat (map (\<lambda>t. CHR ''.'' # t) ts) \<and>
        bounded_word alnum_cls local_cls l \<and> bounded_word alnum_cls label_cls d \<and>
        ts \<noteq> [] \<and> list_all alpha_word ts)"
  proof
    assume "\<exists>l v. w = l @ v \<and> bounded_word alnum_cls local_cls l \<and>
        (\<exists>a x. v = a @ x \<and> a = ''@'' \<and>
           (\<exists>d y. x = d @ y \<and> bounded_word alnum_cls label_cls d \<and>
              (\<exists>ts. ts \<noteq> [] \<and> y = concat (map (\<lambda>t. CHR ''.'' # t) ts) \<and> list_all alpha_word ts)))"
    then show "\<exists>l d ts. w = l @ ''@'' @ d @ concat (map (\<lambda>t. CHR ''.'' # t) ts) \<and>
        bounded_word alnum_cls local_cls l \<and> bounded_word alnum_cls label_cls d \<and>
        ts \<noteq> [] \<and> list_all alpha_word ts"
      by blast
  next
    assume "\<exists>l d ts. w = l @ ''@'' @ d @ concat (map (\<lambda>t. CHR ''.'' # t) ts) \<and>
        bounded_word alnum_cls local_cls l \<and> bounded_word alnum_cls label_cls d \<and>
        ts \<noteq> [] \<and> list_all alpha_word ts"
    then show "\<exists>l v. w = l @ v \<and> bounded_word alnum_cls local_cls l \<and>
        (\<exists>a x. v = a @ x \<and> a = ''@'' \<and>
           (\<exists>d y. x = d @ y \<and> bounded_word alnum_cls label_cls d \<and>
              (\<exists>ts. ts \<noteq> [] \<and> y = concat (map (\<lambda>t. CHR ''.'' # t) ts) \<and> list_all alpha_word ts)))"
      by blast
  qed
  finally show ?thesis .
qed

section \<open>Evaluation on the examples\<close>

lemmas re_defs = emailRegex_def local_re_def label_re_def suffix_re_def Opt_def Some1_def
  AtLeast2_def alnum_cls_def local_cls_def label_cls_def alpha_cls_def in_class_def

lemmas session_defs = verifyMailbox_def run_session_def new_session_def on_error_def
  on_timeout_def on_close_def on_connect_def on_data_def cleanup_def resolve_def
  socket_write_def socket_destroy_def writable_def commands_def rcpt_verdict_def split_def
  CRLF_def parseInt_def is_space_def is_digit_def digit_val_def digits_value_def

lemmas stage_defs = validateEmail_def network_requests_def validateEmail_run_def mx_stage_def
  spf_stage_def smtp_stage_def initial_result_def conclude_def all_checks_def has_spf_def

lemma fmt_simple: "validateEmailFormat (JStr ''a@b.co'')"
  by (simp add: re_defs)

lemma fmt_underscore: "\<not> validateEmailFormat (JStr ''_a@b.co'')"
  by (simp add: re_defs)

lemma fmt_plain: "\<not> validateEmailFormat (JStr ''not-an-email'')"
  by (simp add: re_defs)

lemma dom_simple: "email_domain ''a@b.co'' = ''b.co''"
  by (simp add: email_domain_def split_def)

lemma prov_simple: "getProviderConfig ''b.co'' = None"
  by (simp add: getProviderConfig_def PROVIDER_CONFIGS_def toLowerCase_def lower_char_def)

lemma probe_refused: "verifyMailbox ''a@b.co'' (\<lambda>k. False) [SockError] = False"
  by (simp add: session_defs)

lemma probe_accepting: "verifyMailbox ''a@b.co'' (\<lambda>k. False) accepting_session = True"
  by (simp add: session_defs accepting_session_def dom_simple Let_def)


section \<open>The syntax validator\<close>

text \<open>
  C8, as the specification words it, fails: the address \<open>_a@b.co\<close> is in the worded grammar
  (its local part is made of allowed characters and neither starts nor ends with a dot),
  and the pattern rejects it, since a local part must start with a letter or a digit.
\<close>

theorem spec_grammar_counterexample:
  "spec_address ''_a@b.co'' \<and> \<not> validateEmailFormat (JStr ''_a@b.co'')"
proof -
  have "''_a@b.co'' = ''_a'' @ ''@'' @ concat (map (\<lambda>d. d @ ''.'') [''b'']) @ ''co''"
    by simp
  moreover have "spec_local ''_a''"
    by (simp add: spec_local_def local_cls_def in_class_def)
  moreover have "list_all spec_label [''b'']"
    by (simp add: spec_label_def label_cls_def in_class_def)
  moreover have "alpha_word ''co''"
    by (simp add: alpha_word_def alpha_cls_def in_class_def)
  ultimately have "spec_address ''_a@b.co''"
    unfolding spec_address_def by blast
  then show ?thesis using fmt_underscore by simp
qed

text \<open>
  C8, amended: \<open>validateEmailFormat\<close> accepts exactly the strings made of a local part of
  1 to 63 characters among the alphanumerics and \<open>. _ % + -\<close> that starts and ends with an
  alphanumeric, then \<open>@\<close>, then one label of 1 to 63 alphanumerics or hyphens that starts
  and ends with an alphanumeric, then one or more groups of a dot and at least two letters.
\<close>

theorem validateEmailFormat_grammar:
  "validateEmailFormat e \<longleftrightarrow>
     (\<exists>l d ts. e = JStr (l @ ''@'' @ d @ concat (map (\<lambda>t. CHR ''.'' # t) ts)) \<and>
        bounded_word alnum_cls local_cls l \<and> bounded_word alnum_cls label_cls d \<and>
        ts \<noteq> [] \<and> list_all alpha_word ts)"
proof (cases e)
  case (JStr s)
  have "validateEmailFormat (JStr s) \<longleftrightarrow> s \<noteq> [] \<and> s \<in> lang emailRegex"
    by (simp add: regex_test_lang)
  also have "\<dots> \<longleftrightarrow> (\<exists>l d ts. s = l @ ''@'' @ d @ concat (map (\<lambda>t. CHR ''.'' # t) ts) \<and>
        bounded_word alnum_cls local_cls l \<and> bounded_word alnum_cls label_cls d \<and>
        ts \<noteq> [] \<and> list_all alpha_word ts)"
    unfolding lang_emailRegex by auto
  finally show ?thesis using JStr by simp
qed simp_all

theorem validateEmailFormat_grammar_witness:
  "bounded_word alnum_cls local_cls ''a'' \<and> bounded_word alnum_cls label_cls ''b'' \<and>
   list_all alpha_word [''co''] \<and> validateEmailFormat (JStr ''a@b.co'')"
proof -
  have l: "bounded_word alnum_cls local_cls ''a''"
    by (simp add: bounded_word_def alnum_cls_def local_cls_def in_class_def)
  have d: "bounded_word alnum_cls label_cls ''b''"
    by (simp add: bounded_word_def alnum_cls_def label_cls_def in_class_def)
  have t: "list_all alpha_word [''co'']"
    by (simp add: alpha_word_def alpha_cls_def in_class_def)
  have "JStr ''a@b.co'' = JStr (''a'' @ ''@'' @ ''b'' @ concat (map (\<lambda>t. CHR ''.'' # t) [''co'']))"
    by simp
  then have "validateEmailFormat (JStr ''a@b.co'')"
    using l d t validateEmailFormat_grammar [of "JStr ''a@b.co''"] by blast
  then show ?thesis using l d t by simp
qed

section \<open>The verdict composer\<close>

lemma try_exchangers_found:
  "try_exchangers probe (m # ms) = (ops, found) \<Longrightarrow> probe (exchange m) \<Longrightarrow> found"
  by simp

lemma conclude_checks: "checks (conclude r) = checks r"
  by (simp add: conclude_def Let_def)

lemma smtp_stage_checks:
  assumes "smtp_stage net addr domain mxRecords r = (ops, res)"
    and "\<not> mailbox (checks r)" and "dns (checks r)" and "mx (checks r)"
  shows "mailbox (checks res) = smtp (checks res) \<and> dns (checks res) \<and> mx (checks res)"
  using assms unfolding smtp_stage_def Let_def
  by (auto simp: conclude_checks split: prod.splits if_splits option.splits)

lemma spf_stage_checks:
  assumes "spf_stage net addr domain mxRecords r = (ops, res)"
    and "\<not> mailbox (checks r)" and "\<not> smtp (checks r)" and "dns (checks r)" and "mx (checks r)"
  shows "mailbox (checks res) = smtp (checks res) \<and> dns (checks res) \<and> mx (checks res)"
proof (cases "resolveTxt net domain")
  case None
  show ?thesis
  proof (cases "getProviderConfig domain = None")
    case True
    obtain ops' where "smtp_stage net addr domain mxRecords (r\<lparr>checks := (checks r)\<lparr>spf := True\<rparr>\<rparr>) = (ops', res)"
      using assms(1) None True by (auto simp: spf_stage_def split: prod.splits)
    from smtp_stage_checks[OF this] assms show ?thesis by simp
  next
    case False
    then show ?thesis using assms None by (auto simp: spf_stage_def)
  qed
next
  case (Some txtRecords)
  show ?thesis
  proof (cases "\<not> has_spf txtRecords \<and> getProviderConfig domain \<noteq> None")
    case True
    then show ?thesis using assms Some by (auto simp: spf_stage_def Let_def)
  next
    case False
    then obtain ops' where
      "smtp_stage net addr domain mxRecords (r\<lparr>checks := (checks r)\<lparr>spf := has_spf txtRecords\<rparr>\<rparr>) = (ops', res)"
      using assms(1) Some by (auto simp: spf_stage_def Let_def split: prod.splits)
    from smtp_stage_checks[OF this] assms show ?thesis by simp
  qed
qed

lemma mx_stage_checks:
  assumes "mx_stage net addr domain r = (ops, res)"
    and "\<not> mailbox (checks r)" and "\<not> smtp (checks r)" and "dns (checks r)" and "\<not> mx (checks r)"
  shows "mailbox (checks res) = smtp (checks res) \<and> dns (checks res) \<and>
    (mailbox (checks res) \<longrightarrow> mx (checks res))"
proof (cases "resolveMx net domain")
  case None
  then show ?thesis using assms by (auto simp: mx_stage_def)
next
  case (Some mxRecords)
  show ?thesis
  proof (cases "mxRecords = []")
    case True
    then show ?thesis using assms Some by (auto simp: mx_stage_def Let_def)
  next
    case False
    then obtain ops' where
      "spf_stage net addr domain mxRecords (r\<lparr>checks := (checks r)\<lparr>mx := True\<rparr>\<rparr>) = (ops', res)"
      using assms(1) Some by (auto simp: mx_stage_def Let_def split: prod.splits)
    from spf_stage_checks[OF this] assms show ?thesis by simp
  qed
qed

lemma validateEmail_invalid:
  "\<not> validateEmailFormat e \<Longrightarrow>
     validateEmail_run net e = ([], (initial_result e)\<lparr>reason := ''Invalid email format''\<rparr>)"
  by (simp add: validateEmail_run_def)

lemma validateEmail_checks:
  "mailbox (checks (validateEmail net e)) = smtp (checks (validateEmail net e)) \<and>
   (mx (checks (validateEmail net e)) \<longrightarrow> dns (checks (validateEmail net e))) \<and>
   (mailbox (checks (validateEmail net e)) \<longrightarrow> mx (checks (validateEmail net e)))"
proof (cases "validateEmailFormat e")
  case False
  then show ?thesis by (simp add: validateEmail_def validateEmail_invalid initial_result_def)
next
  case True
  then obtain addr where e: "e = JStr addr" by (cases e) auto
  show ?thesis
  proof (cases "dns_lookup net (email_domain addr)")
    case False
    then show ?thesis using True e
      by (simp add: validateEmail_def validateEmail_run_def initial_result_def
          del: validateEmailFormat.simps)
  next
    case dns: True
    obtain ops res where st: "mx_stage net addr (email_domain addr)
        ((initial_result e)\<lparr>checks := (checks (initial_result e))\<lparr>dns := True\<rparr>\<rparr>) = (ops, res)"
      by (cases "mx_stage net addr (email_domain addr)
        ((initial_result e)\<lparr>checks := (checks (initial_result e))\<lparr>dns := True\<rparr>\<rparr>)") auto
    have res: "validateEmail net e = res"
      using True e dns st
      by (simp add: validateEmail_def validateEmail_run_def Let_def del: validateEmailFormat.simps)
    have "mailbox (checks res) = smtp (checks res) \<and> dns (checks res) \<and>
        (mailbox (checks res) \<longrightarrow> mx (checks res))"
      by (rule mx_stage_checks[OF st]) (simp_all add: initial_result_def)
    then show ?thesis using res by simp
  qed
qed

text \<open>
  C4: whatever the address and whatever the lookups and the probes answer, the result of
  \<open>validateEmail\<close> has \<open>checks.mailbox\<close> equal to \<open>checks.smtp\<close>.
\<close>

theorem mailbox_smtp_paired:
  "mailbox (checks (validateEmail net e)) = smtp (checks (validateEmail net e))"
  using validateEmail_checks [of net e] by blast

text \<open>
  C10: in every result of \<open>validateEmail\<close> the checks are monotone in gate order: if
  \<open>mailbox\<close> or \<open>smtp\<close> is true then \<open>mx\<close> is true, and if \<open>mx\<close> is true then \<open>dns\<close> is true.
\<close>

theorem checks_gate_order:
  "(mailbox (checks (validateEmail net e)) \<longrightarrow> mx (checks (validateEmail net e))) \<and>
   (smtp (checks (validateEmail net e)) \<longrightarrow> mx (checks (validateEmail net e))) \<and>
   (mx (checks (validateEmail net e)) \<longrightarrow> dns (checks (validateEmail net e)))"
  using validateEmail_checks [of net e] by blast

lemma eval_refused:
  "validateEmail_run net_refused (JStr ''a@b.co'') =
     ([DnsLookup ''b.co'', QueryMx ''b.co'', QueryTxt ''b.co'', SmtpConnect ''mx.example.org''],
      \<lparr>email = JStr ''a@b.co'', valid = False,
       checks = \<lparr>mx = True, dns = True, spf = True, mailbox = True, smtp = True\<rparr>,
       reason = ''Email appears valid but could not fully verify''\<rparr>)"
  by (simp add: stage_defs fmt_simple dom_simple prov_simple probe_refused net_refused_def
      example_mx_def Let_def del: validateEmailFormat.simps)

theorem checks_gate_order_witness:
  "mailbox (checks (validateEmail net_refused (JStr ''a@b.co''))) \<and>
   smtp (checks (validateEmail net_refused (JStr ''a@b.co''))) \<and>
   mx (checks (validateEmail net_refused (JStr ''a@b.co''))) \<and>
   dns (checks (validateEmail net_refused (JStr ''a@b.co'')))"
proof -
  have "mailbox (checks (validateEmail net_refused (JStr ''a@b.co'')))"
    by (simp add: validateEmail_def eval_refused)
  then show ?thesis
    using checks_gate_order [of net_refused "JStr ''a@b.co''"]
      validateEmail_checks [of net_refused "JStr ''a@b.co''"] by blast
qed

text \<open>
  C6: for every input that the format check rejects, strings and other values alike,
  \<open>validateEmail\<close> returns \<open>valid = false\<close>, all five checks false and the reason
  \<open>Invalid email format\<close>; it makes no request to the network, and the result is the same
  on any two networks.
\<close>

theorem invalid_format_result:
  "\<not> validateEmailFormat e \<Longrightarrow>
     validateEmail net e =
       \<lparr>email = e, valid = False,
        checks = \<lparr>mx = False, dns = False, spf = False, mailbox = False, smtp = False\<rparr>,
        reason = ''Invalid email format''\<rparr> \<and>
     network_requests net e = [] \<and>
     validateEmail net e = validateEmail net' e"
  by (simp add: validateEmail_def network_requests_def validateEmail_invalid initial_result_def)

theorem invalid_format_result_witness:
  "\<not> validateEmailFormat (JStr ''not-an-email'') \<and>
   validateEmail net_refused (JStr ''not-an-email'') =
     \<lparr>email = JStr ''not-an-email'', valid = False,
      checks = \<lparr>mx = False, dns = False, spf = False, mailbox = False, smtp = False\<rparr>,
      reason = ''Invalid email format''\<rparr> \<and>
   network_requests net_refused (JStr ''not-an-email'') = [] \<and>
   validateEmail net_refused (JStr ''not-an-email'') = validateEmail net_down (JStr ''not-an-email'')"
  using invalid_format_result [OF fmt_plain, of net_refused net_down] fmt_plain by blast

lemma eval_no_spf:
  "validateEmail net_no_spf (JStr ''a@b.co'') =
     \<lparr>email = JStr ''a@b.co'', valid = False,
      checks = \<lparr>mx = True, dns = True, spf = False, mailbox = True, smtp = True\<rparr>,
      reason = ''Failed to verify email''\<rparr>"
  by (simp add: stage_defs fmt_simple dom_simple prov_simple probe_accepting net_no_spf_def
      example_mx_def Let_def del: validateEmailFormat.simps)

lemma eval_txt_fails:
  "validateEmail net_txt_fails (JStr ''a@b.co'') =
     \<lparr>email = JStr ''a@b.co'', valid = True,
      checks = \<lparr>mx = True, dns = True, spf = True, mailbox = True, smtp = True\<rparr>,
      reason = ''Email verified successfully''\<rparr>"
  by (simp add: stage_defs fmt_simple dom_simple prov_simple probe_accepting net_txt_fails_def
      example_mx_def Let_def del: validateEmailFormat.simps)

text \<open>
  C1 at a failing input: the domain \<open>b.co\<close> is outside the registry, the lookups pass, the
  TXT query fails and the only exchanger refuses the connection. The fallback sets
  \<open>mailbox\<close> and \<open>smtp\<close> and returns: all five checks are true and \<open>valid\<close> is false.
\<close>

theorem fallback_leaves_valid_false:
  "validateEmail net_refused (JStr ''a@b.co'') =
     \<lparr>email = JStr ''a@b.co'', valid = False,
      checks = \<lparr>mx = True, dns = True, spf = True, mailbox = True, smtp = True\<rparr>,
      reason = ''Email appears valid but could not fully verify''\<rparr> \<and>
   all_checks (checks (validateEmail net_refused (JStr ''a@b.co''))) \<and>
   \<not> valid (validateEmail net_refused (JStr ''a@b.co''))"
  by (simp add: validateEmail_def eval_refused all_checks_def)

text \<open>
  C2 at a failing input: the domain \<open>b.co\<close> is outside the registry, the lookups pass, the
  exchanger accepts the recipient, and the TXT query succeeds without an SPF record. The
  \<open>spf\<close> check stays false and it alone makes \<open>valid\<close> false. When the TXT query fails
  instead, \<open>spf\<close> is forced true and the address is valid.
\<close>

theorem missing_spf_record_invalidates:
  "validateEmail net_no_spf (JStr ''a@b.co'') =
     \<lparr>email = JStr ''a@b.co'', valid = False,
      checks = \<lparr>mx = True, dns = True, spf = False, mailbox = True, smtp = True\<rparr>,
      reason = ''Failed to verify email''\<rparr> \<and>
   getProviderConfig (email_domain ''a@b.co'') = None \<and>
   validateEmail net_txt_fails (JStr ''a@b.co'') =
     \<lparr>email = JStr ''a@b.co'', valid = True,
      checks = \<lparr>mx = True, dns = True, spf = True, mailbox = True, smtp = True\<rparr>,
      reason = ''Email verified successfully''\<rparr>"
  by (simp add: eval_no_spf eval_txt_fails dom_simple prov_simple)

section \<open>The provider probe\<close>

lemmas psession_defs = verifyProviderMailbox_def run_psession_def new_psession_def
  handleResponse_def provider_commands_def success_code_def resolve_def socket_write_def
  socket_destroy_def split_def CRLF_def parseInt_def is_space_def is_digit_def digit_val_def
  digits_value_def

text \<open>
  C3 at a failing input: a session with the first provider of the registry in which the
  exchanger answers \<open>250\<close>, so that the validity flag is true and the promise pending, and
  then the socket reports an error. The listener registered first resolves \<open>false\<close>.
\<close>

theorem provider_error_resolves_false:
  "getProviderConfig ''outlook.com'' = Some outlook_config \<and>
   isValid (run_psession outlook_config ''a@outlook.com'' hello_session) \<and>
   resolved (run_psession outlook_config ''a@outlook.com'' hello_session) = None \<and>
   errorListeners (run_psession outlook_config ''a@outlook.com'' hello_session) =
     [ResolveFalse, ResolveIsValid] \<and>
   verifyProviderMailbox outlook_config ''a@outlook.com'' (hello_session @ [SockError]) = False"
proof -
  have "getProviderConfig ''outlook.com'' = Some outlook_config"
    by (simp add: getProviderConfig_def PROVIDER_CONFIGS_def toLowerCase_def lower_char_def
        outlook_config_def)
  moreover have "isValid (run_psession outlook_config ''a@outlook.com'' hello_session) \<and>
      resolved (run_psession outlook_config ''a@outlook.com'' hello_session) = None \<and>
      errorListeners (run_psession outlook_config ''a@outlook.com'' hello_session) =
        [ResolveFalse, ResolveIsValid]"
    by (simp add: psession_defs hello_session_def outlook_config_def Let_def)
  moreover have
    "verifyProviderMailbox outlook_config ''a@outlook.com'' (hello_session @ [SockError]) = False"
    by (simp add: psession_defs hello_session_def outlook_config_def Let_def)
  ultimately show ?thesis by blast
qed

section \<open>The generic probe\<close>







lemma currentCommand_rcpt: "currentCommand (rcpt_verdict code s) = currentCommand s"
  by (simp add: rcpt_verdict_def Let_def)












end
